theory Spec2Isabelle
  imports Main
begin

section \<open>Data model\<close>

text \<open>
  Modelled from the spec: the classes \<open>Location\<close> and \<open>FoldScopeLocation\<close> of
  \<open>compiler/helpers.py\<close> are not part of the sources at hand. Section 3 of the
  specification describes a location as an opaque identifier, with fold-scope locations
  as a distinguished subtype. The identifier is a string here; the subtype test
  \<open>isinstance(location, FoldScopeLocation)\<close> is the test for the second constructor.
  The operation \<open>navigate_to_field\<close> is a parameter of every function that calls it.
\<close>

datatype location = Location string | FoldScopeLocation string

fun is_FoldScopeLocation :: "location \<Rightarrow> bool" where
  "is_FoldScopeLocation (FoldScopeLocation p) = True"
| "is_FoldScopeLocation (Location p) = False"

text \<open>
  Modelled from the spec: the expression classes of \<open>compiler/expressions.py\<close> are not
  part of the sources at hand. Section 3 names \<open>LocalField\<close>, \<open>ContextField\<close> and
  \<open>FoldedContextField\<close> and speaks of expression trees; \<open>ir_lowering.py\<close> reads
  \<open>field_name\<close> and \<open>field_type\<close> of a \<open>LocalField\<close> and builds the two context
  fields from a location and a field type. Every other variant is an
  \<open>OtherExpression\<close>: its tag, the locations among its constructor arguments and its
  subexpressions.
\<close>

datatype expression =
    LocalField string string
  | ContextField location string
  | FoldedContextField location string
  | OtherExpression string "location list" "expression list"

text \<open>
  Modelled from the spec: the block classes of \<open>compiler/blocks.py\<close> are not part of the
  sources at hand. The variants and what they carry follow section 3; \<open>ir_lowering.py\<close>
  reads \<open>optional\<close> of a \<open>Traverse\<close>, \<open>location\<close> of a \<open>Backtrack\<close> and of a
  \<open>MarkLocation\<close>, and builds a \<open>CoerceType\<close> from a set of type names. A \<open>Traverse\<close>
  carries the direction and the name of its edge and its \<open>optional\<close> flag, a \<open>Recurse\<close>
  the direction and the name of its edge and its depth bound. Every other block kind is
  an \<open>OtherBlock\<close>: its tag and the expressions it holds.
\<close>

datatype block =
    QueryRoot
  | Traverse string string bool
  | Recurse string string nat
  | Fold location
  | Backtrack location
  | MarkLocation location
  | CoerceType "string set"
  | Filter expression
  | GlobalOperationsStart
  | OtherBlock string "expression list"

fun is_Filter :: "block \<Rightarrow> bool" where
  "is_Filter (Filter predicate) = True"
| "is_Filter b = False"

fun is_MarkLocation :: "block \<Rightarrow> bool" where
  "is_MarkLocation (MarkLocation l) = True"
| "is_MarkLocation b = False"

fun is_CoerceType :: "block \<Rightarrow> bool" where
  "is_CoerceType (CoerceType c) = True"
| "is_CoerceType b = False"

text \<open>\<open>isinstance(block, (Traverse, Fold, Recurse))\<close>\<close>

fun is_Traverse_Fold_Recurse :: "block \<Rightarrow> bool" where
  "is_Traverse_Fold_Recurse (Traverse d e opt) = True"
| "is_Traverse_Fold_Recurse (Fold l) = True"
| "is_Traverse_Fold_Recurse (Recurse d e n) = True"
| "is_Traverse_Fold_Recurse b = False"

text \<open>\<open>isinstance(block, Traverse) and block.optional\<close>\<close>

fun is_optional_Traverse :: "block \<Rightarrow> bool" where
  "is_optional_Traverse (Traverse d e opt) = opt"
| "is_optional_Traverse b = False"

text \<open>
  The faults of the passes. The first two are the \<open>AssertionError\<close>s of
  \<open>insert_explicit_type_bounds\<close>, the third the one of
  \<open>replace_local_fields_with_context_fields\<close>, the last the fault of a metadata lookup
  (section 7 of the specification).
\<close>

datatype error =
    UnexpectedBlockFound
  | IllegalIRBlocks
  | BlockCountChanged
  | LocationNotRegistered

text \<open>
  Modelled from the spec: \<open>QueryMetadataTable\<close> is not part of the sources at hand.
  Section 6 gives what it exposes per location (declared type name, optional-scope
  nesting depth) and the translation map from revisit locations to their origins;
  section 7 makes a location missing from the table a fault.
\<close>

record location_info =
  type_name :: string
  optional_scopes_depth :: int

record query_metadata_table =
  registered_locations :: "location \<rightharpoonup> location_info"
  revisit_origins :: "location \<rightharpoonup> location"

text \<open>
  Modelled from the spec: \<open>get_location_info\<close> of the metadata table, not part of the
  sources at hand. It returns what the table records for the location and raises the
  fault of section 7 for a location missing from the table.
\<close>

definition get_location_info :: "query_metadata_table \<Rightarrow> location \<Rightarrow> error + location_info" where
  "get_location_info query_metadata_table l =
     (case registered_locations query_metadata_table l of
        None \<Rightarrow> Inl LocationNotRegistered
      | Some location_info \<Rightarrow> Inr location_info)"

text \<open>
  Modelled from the spec: \<open>make_revisit_location_translations\<close> of
  \<open>ir_lowering_common/location_renaming.py\<close>, not part of the sources at hand. It returns
  the translation map from revisit locations to origins that the table supplies
  (sections 4.3 and 6).
\<close>

definition make_revisit_location_translations :: "query_metadata_table \<Rightarrow> (location \<rightharpoonup> location)" where
  "make_revisit_location_translations query_metadata_table = revisit_origins query_metadata_table"

section \<open>Expression rewriter\<close>

text \<open>
  Modelled from the spec: \<open>visit_and_update\<close> of expressions and
  \<open>visit_and_update_expressions\<close> of blocks are not part of the sources at hand.
  Section 4.1: every expression inside the block is replaced by the output of the rewrite
  function; a block containing no expressions is returned unchanged. Subexpressions are
  rewritten before the expression that holds them.
\<close>

fun visit_and_update :: "(expression \<Rightarrow> expression) \<Rightarrow> expression \<Rightarrow> expression" where
  "visit_and_update visitor_fn (OtherExpression tag locs args) =
     visitor_fn (OtherExpression tag locs (map (visit_and_update visitor_fn) args))"
| "visit_and_update visitor_fn (LocalField field_name field_type) =
     visitor_fn (LocalField field_name field_type)"
| "visit_and_update visitor_fn (ContextField l field_type) =
     visitor_fn (ContextField l field_type)"
| "visit_and_update visitor_fn (FoldedContextField l field_type) =
     visitor_fn (FoldedContextField l field_type)"

fun visit_and_update_expressions :: "(expression \<Rightarrow> expression) \<Rightarrow> block \<Rightarrow> block" where
  "visit_and_update_expressions visitor_fn (Filter predicate) =
     Filter (visit_and_update visitor_fn predicate)"
| "visit_and_update_expressions visitor_fn (OtherBlock tag exprs) =
     OtherBlock tag (map (visit_and_update visitor_fn) exprs)"
| "visit_and_update_expressions visitor_fn b = b"

section \<open>Pass 4.2: insert_explicit_type_bounds\<close>

text \<open>
  The inner \<open>while\<close> loop, started at \<open>lookup_index\<close>. It returns the pair
  \<open>(next_mark_location, next_coerce_type)\<close> it leaves behind, or the fault it raises.
\<close>

function lookup_loop :: "block list \<Rightarrow> nat \<Rightarrow> error + (block option \<times> block option)" where
  "lookup_loop ir_blocks lookup_index =
     (if lookup_index < length ir_blocks then
        (case ir_blocks ! lookup_index of
           CoerceType c \<Rightarrow> Inr (None, Some (CoerceType c))
         | MarkLocation l \<Rightarrow> Inr (Some (MarkLocation l), None)
         | Filter predicate \<Rightarrow> lookup_loop ir_blocks (lookup_index + 1)
         | _ \<Rightarrow> Inl UnexpectedBlockFound)
      else Inr (None, None))"
  by pat_completeness auto
termination
  by (relation "measure (\<lambda>(ir_blocks, lookup_index). length ir_blocks - lookup_index)") auto

text \<open>
  The body of the \<open>for\<close> loop at \<open>current_index\<close>: the blocks it appends to
  \<open>new_ir_blocks\<close>, or the fault it raises. A block object counts as true in the tests
  \<open>if next_coerce_type\<close> and \<open>elif next_mark_location\<close>. The parameter
  \<open>type_equivalence_hints\<close> of the pass is not used by it and is left out.
\<close>

definition type_bound_step :: "block list \<Rightarrow> query_metadata_table \<Rightarrow> nat \<Rightarrow> error + block list" where
  "type_bound_step ir_blocks query_metadata_table current_index =
     (let b = ir_blocks ! current_index in
      if is_Traverse_Fold_Recurse b then
        (case lookup_loop ir_blocks (current_index + 1) of
           Inl e \<Rightarrow> Inl e
         | Inr (next_mark_location, next_coerce_type) \<Rightarrow>
             (case next_coerce_type of
                Some c \<Rightarrow> Inr [b]
              | None \<Rightarrow>
                  (case next_mark_location of
                     Some (MarkLocation l) \<Rightarrow>
                       (case get_location_info query_metadata_table l of
                          Inl e \<Rightarrow> Inl e
                        | Inr location_info \<Rightarrow> Inr [b, CoerceType {type_name location_info}])
                   | _ \<Rightarrow> Inl IllegalIRBlocks)))
      else Inr [b])"

text \<open>The \<open>for\<close> loop over \<open>enumerate(ir_blocks)\<close>, from \<open>current_index\<close> on.\<close>

function type_bounds_loop ::
    "block list \<Rightarrow> query_metadata_table \<Rightarrow> nat \<Rightarrow> block list \<Rightarrow> error + block list" where
  "type_bounds_loop ir_blocks query_metadata_table current_index new_ir_blocks =
     (if current_index < length ir_blocks then
        (case type_bound_step ir_blocks query_metadata_table current_index of
           Inl e \<Rightarrow> Inl e
         | Inr appended \<Rightarrow>
             type_bounds_loop ir_blocks query_metadata_table (current_index + 1)
               (new_ir_blocks @ appended))
      else Inr new_ir_blocks)"
  by pat_completeness auto
termination
  by (relation "measure (\<lambda>(ir_blocks, query_metadata_table, current_index, new_ir_blocks).
        length ir_blocks - current_index)") auto

definition insert_explicit_type_bounds :: "block list \<Rightarrow> query_metadata_table \<Rightarrow> error + block list" where
  "insert_explicit_type_bounds ir_blocks query_metadata_table =
     type_bounds_loop ir_blocks query_metadata_table 0 []"

section \<open>Pass 4.3: remove_mark_location_after_optional_backtrack\<close>

text \<open>
  Modelled from the spec: \<open>make_location_rewriter_visitor_fn\<close> of
  \<open>ir_lowering_common/location_renaming.py\<close> is not part of the sources at hand.
  Section 4.3: any reference to a revisit location inside an expression is replaced by
  its origin.
\<close>

definition translate_potential_location :: "(location \<rightharpoonup> location) \<Rightarrow> location \<Rightarrow> location" where
  "translate_potential_location location_translations l =
     (case location_translations l of None \<Rightarrow> l | Some origin \<Rightarrow> origin)"

fun make_location_rewriter_visitor_fn :: "(location \<rightharpoonup> location) \<Rightarrow> expression \<Rightarrow> expression" where
  "make_location_rewriter_visitor_fn tr (LocalField field_name field_type) =
     LocalField field_name field_type"
| "make_location_rewriter_visitor_fn tr (ContextField l field_type) =
     ContextField (translate_potential_location tr l) field_type"
| "make_location_rewriter_visitor_fn tr (FoldedContextField l field_type) =
     FoldedContextField (translate_potential_location tr l) field_type"
| "make_location_rewriter_visitor_fn tr (OtherExpression tag locs args) =
     OtherExpression tag (map (translate_potential_location tr) locs) args"

text \<open>\<open>isinstance(block, MarkLocation) and block.location in location_translations\<close>\<close>

fun is_revisit_MarkLocation :: "(location \<rightharpoonup> location) \<Rightarrow> block \<Rightarrow> bool" where
  "is_revisit_MarkLocation tr (MarkLocation l) = (tr l \<noteq> None)"
| "is_revisit_MarkLocation tr b = False"

text \<open>
  The \<open>for\<close> loop over \<open>ir_blocks\<close>: a \<open>MarkLocation\<close> of a revisit location adds
  nothing to \<open>new_ir_blocks\<close>, every other block adds its rewritten copy.
\<close>

fun remove_loop :: "(location \<rightharpoonup> location) \<Rightarrow> block list \<Rightarrow> block list" where
  "remove_loop tr [] = []"
| "remove_loop tr (b # rest) =
     (if is_revisit_MarkLocation tr b then remove_loop tr rest
      else visit_and_update_expressions (make_location_rewriter_visitor_fn tr) b
             # remove_loop tr rest)"

definition remove_mark_location_after_optional_backtrack ::
    "block list \<Rightarrow> query_metadata_table \<Rightarrow> block list" where
  "remove_mark_location_after_optional_backtrack ir_blocks query_metadata_table =
     remove_loop (make_revisit_location_translations query_metadata_table) ir_blocks"

section \<open>Pass 4.4: replace_local_fields_with_context_fields\<close>

text \<open>
  The rewriter function \<open>visitor_func_base\<close>. Its first argument stands for the method
  \<open>navigate_to_field\<close> of locations, which is not part of the sources at hand and is
  taken as a parameter by this pass.
\<close>

definition visitor_func_base ::
    "(location \<Rightarrow> string \<Rightarrow> location) \<Rightarrow> location \<Rightarrow> expression \<Rightarrow> expression" where
  "visitor_func_base navigate_to_field l expr =
     (case expr of
        LocalField field_name field_type \<Rightarrow>
          (let location_at_field = navigate_to_field l field_name
           in if is_FoldScopeLocation l then FoldedContextField location_at_field field_type
              else ContextField location_at_field field_type)
      | _ \<Rightarrow> expr)"

text \<open>
  The \<open>for\<close> loop over \<open>ir_blocks\<close>; the state is the pair
  \<open>(new_ir_blocks, blocks_to_be_rewritten)\<close>.
\<close>

fun rewrite_loop ::
    "(location \<Rightarrow> string \<Rightarrow> location) \<Rightarrow> block list \<Rightarrow> block list \<times> block list
       \<Rightarrow> block list \<times> block list" where
  "rewrite_loop nav [] st = st"
| "rewrite_loop nav (MarkLocation l # rest) (new_ir_blocks, blocks_to_be_rewritten) =
     rewrite_loop nav rest
       (new_ir_blocks
          @ map (visit_and_update_expressions (visitor_func_base nav l)) blocks_to_be_rewritten
          @ [MarkLocation l],
        [])"
| "rewrite_loop nav (b # rest) (new_ir_blocks, blocks_to_be_rewritten) =
     rewrite_loop nav rest (new_ir_blocks, blocks_to_be_rewritten @ [b])"

text \<open>
  The pass: the loop, then the blocks still waiting are appended as they are, then the
  check of the number of blocks.
\<close>

definition replace_local_fields_with_context_fields ::
    "(location \<Rightarrow> string \<Rightarrow> location) \<Rightarrow> block list \<Rightarrow> error + block list" where
  "replace_local_fields_with_context_fields nav ir_blocks =
     (case rewrite_loop nav ir_blocks ([], []) of
        (new_ir_blocks, blocks_to_be_rewritten) \<Rightarrow>
          (if length ir_blocks \<noteq> length (new_ir_blocks @ blocks_to_be_rewritten)
           then Inl BlockCountChanged
           else Inr (new_ir_blocks @ blocks_to_be_rewritten)))"

section \<open>Pass 4.5: move_filters_in_optional_locations_to_global_operations\<close>

text \<open>The three variables of the loop.\<close>

record hoist_state =
  new_ir_blocks :: "block list"
  global_filters :: "block list"
  within_optional_scope :: bool

text \<open>
  The first part of the loop body: the \<open>if\<close>/\<open>elif\<close> chain. It returns the state and
  \<open>new_block\<close> (\<open>None\<close> when the block is not to be appended in place).
\<close>

definition hoist_branch ::
    "query_metadata_table \<Rightarrow> hoist_state \<Rightarrow> block \<Rightarrow> error + (hoist_state \<times> block option)" where
  "hoist_branch query_metadata_table st b =
     (if within_optional_scope st \<and> is_Filter b then
        Inr (st\<lparr>global_filters := global_filters st @ [b]\<rparr>, None)
      else if is_optional_Traverse b then
        Inr (st\<lparr>within_optional_scope := True\<rparr>, Some b)
      else
        (case b of
           Backtrack l \<Rightarrow>
             (case get_location_info query_metadata_table l of
                Inl e \<Rightarrow> Inl e
              | Inr location_info \<Rightarrow>
                  Inr (st\<lparr>within_optional_scope := (optional_scopes_depth location_info > 0)\<rparr>,
                       Some b))
         | _ \<Rightarrow> Inr (st, Some b)))"

text \<open>
  The whole loop body: the chain above, the append of \<open>new_block\<close> when there is one,
  and the flush of \<open>global_filters\<close> behind a \<open>GlobalOperationsStart\<close>.
\<close>

definition hoist_step :: "query_metadata_table \<Rightarrow> hoist_state \<Rightarrow> block \<Rightarrow> error + hoist_state" where
  "hoist_step query_metadata_table st b =
     (case hoist_branch query_metadata_table st b of
        Inl e \<Rightarrow> Inl e
      | Inr (st1, new_block) \<Rightarrow>
          (let st2 = (case new_block of
                        None \<Rightarrow> st1
                      | Some nb \<Rightarrow> st1\<lparr>new_ir_blocks := new_ir_blocks st1 @ [nb]\<rparr>)
           in if b = GlobalOperationsStart
              then Inr (st2\<lparr>new_ir_blocks := new_ir_blocks st2 @ global_filters st2,
                            global_filters := []\<rparr>)
              else Inr st2))"

fun hoist_loop :: "query_metadata_table \<Rightarrow> hoist_state \<Rightarrow> block list \<Rightarrow> error + hoist_state" where
  "hoist_loop query_metadata_table st [] = Inr st"
| "hoist_loop query_metadata_table st (b # rest) =
     (case hoist_step query_metadata_table st b of
        Inl e \<Rightarrow> Inl e
      | Inr st' \<Rightarrow> hoist_loop query_metadata_table st' rest)"

text \<open>
  The pass returns \<open>new_ir_blocks\<close>; what is left in \<open>global_filters\<close> after the loop
  is not returned.
\<close>

definition move_filters_in_optional_locations_to_global_operations ::
    "block list \<Rightarrow> query_metadata_table \<Rightarrow> error + block list" where
  "move_filters_in_optional_locations_to_global_operations ir_blocks query_metadata_table =
     (case hoist_loop query_metadata_table
             \<lparr>new_ir_blocks = [], global_filters = [], within_optional_scope = False\<rparr> ir_blocks of
        Inl e \<Rightarrow> Inl e
      | Inr st \<Rightarrow> Inr (new_ir_blocks st))"

section \<open>Notions used to state the properties\<close>

subsection \<open>Pass 4.2\<close>

text \<open>
  The loops of the pass written by recursion over the blocks that remain:
  \<open>lookup_rest rest\<close> is the inner loop on \<open>rest = ir_blocks[lookup_index:]\<close>,
  \<open>type_bound_emit meta b rest\<close> the body of the outer loop for the block \<open>b\<close> in front
  of \<open>rest\<close>, and \<open>type_bounds_rec\<close> the outer loop. They are shown to agree with the
  loops over indices (\<open>insert_explicit_type_bounds_rec\<close> below) and carry the inductions.
\<close>

fun lookup_rest :: "block list \<Rightarrow> error + (block option \<times> block option)" where
  "lookup_rest [] = Inr (None, None)"
| "lookup_rest (CoerceType c # rest) = Inr (None, Some (CoerceType c))"
| "lookup_rest (MarkLocation l # rest) = Inr (Some (MarkLocation l), None)"
| "lookup_rest (Filter predicate # rest) = lookup_rest rest"
| "lookup_rest (lookup_block # rest) = Inl UnexpectedBlockFound"

definition type_bound_emit :: "query_metadata_table \<Rightarrow> block \<Rightarrow> block list \<Rightarrow> error + block list" where
  "type_bound_emit query_metadata_table b rest =
     (if is_Traverse_Fold_Recurse b then
        (case lookup_rest rest of
           Inl e \<Rightarrow> Inl e
         | Inr (next_mark_location, next_coerce_type) \<Rightarrow>
             (case next_coerce_type of
                Some c \<Rightarrow> Inr [b]
              | None \<Rightarrow>
                  (case next_mark_location of
                     Some (MarkLocation l) \<Rightarrow>
                       (case get_location_info query_metadata_table l of
                          Inl e \<Rightarrow> Inl e
                        | Inr location_info \<Rightarrow> Inr [b, CoerceType {type_name location_info}])
                   | _ \<Rightarrow> Inl IllegalIRBlocks)))
      else Inr [b])"

fun type_bounds_rec :: "block list \<Rightarrow> query_metadata_table \<Rightarrow> error + block list" where
  "type_bounds_rec [] query_metadata_table = Inr []"
| "type_bounds_rec (b # rest) query_metadata_table =
     (case type_bound_emit query_metadata_table b rest of
        Inl e \<Rightarrow> Inl e
      | Inr appended \<Rightarrow>
          (case type_bounds_rec rest query_metadata_table of
             Inl e \<Rightarrow> Inl e
           | Inr emitted \<Rightarrow> Inr (appended @ emitted)))"

text \<open>
  The first block that is not a \<open>Filter\<close>: what a forward scan that skips only
  \<open>Filter\<close> blocks finds first, \<open>None\<close> at the end of the sequence.
\<close>

definition first_non_filter :: "block list \<Rightarrow> block option" where
  "first_non_filter bs = (case dropWhile is_Filter bs of [] \<Rightarrow> None | b # rest \<Rightarrow> Some b)"

text \<open>
  Position \<open>i\<close> raises no fault: it holds no \<open>Traverse\<close>, \<open>Fold\<close> or \<open>Recurse\<close>, or the
  scan from \<open>i + 1\<close> finds a \<open>CoerceType\<close>, or a \<open>MarkLocation\<close> whose location the
  metadata table knows.
\<close>

definition type_bound_ok :: "query_metadata_table \<Rightarrow> block list \<Rightarrow> nat \<Rightarrow> bool" where
  "type_bound_ok meta xs i =
     (if is_Traverse_Fold_Recurse (xs ! i) then
        (case first_non_filter (drop (Suc i) xs) of
           Some (CoerceType c) \<Rightarrow> True
         | Some (MarkLocation l) \<Rightarrow> registered_locations meta l \<noteq> None
         | _ \<Rightarrow> False)
      else True)"

text \<open>
  What section 4.2 of the specification asks the output to hold for position \<open>i\<close>: the
  block itself, followed by a new \<open>CoerceType\<close> when the block is a \<open>Traverse\<close>,
  \<open>Fold\<close> or \<open>Recurse\<close> and the scan finds a \<open>MarkLocation\<close> first.
\<close>

definition expected_at :: "query_metadata_table \<Rightarrow> block list \<Rightarrow> nat \<Rightarrow> block list" where
  "expected_at meta xs i =
     (if is_Traverse_Fold_Recurse (xs ! i) then
        (case first_non_filter (drop (Suc i) xs) of
           Some (MarkLocation l) \<Rightarrow>
             (case registered_locations meta l of
                Some info \<Rightarrow> [xs ! i, CoerceType {type_name info}]
              | None \<Rightarrow> [xs ! i])
         | _ \<Rightarrow> [xs ! i])
      else [xs ! i])"

text \<open>
  Position \<open>i\<close> holds a \<open>Traverse\<close>, \<open>Fold\<close> or \<open>Recurse\<close> that lacks a pre-existing
  \<open>CoerceType\<close>: the scan from \<open>i + 1\<close> does not find a \<open>CoerceType\<close> first.
\<close>

definition lacks_coerce_type :: "block list \<Rightarrow> nat \<Rightarrow> bool" where
  "lacks_coerce_type xs i =
     (is_Traverse_Fold_Recurse (xs ! i) \<and>
      (case first_non_filter (drop (Suc i) xs) of Some (CoerceType c) \<Rightarrow> False | _ \<Rightarrow> True))"

text \<open>
  \<open>inserted_ok meta out ins\<close>: \<open>ins\<close> marks positions of \<open>out\<close>, and every marked block
  is a \<open>CoerceType\<close> of the one type name that the table records for the location of the
  \<open>MarkLocation\<close> found first behind it.
\<close>

fun inserted_ok :: "query_metadata_table \<Rightarrow> block list \<Rightarrow> bool list \<Rightarrow> bool" where
  "inserted_ok meta [] [] = True"
| "inserted_ok meta (b # out) (m # ins) =
     ((if m then
         (case first_non_filter out of
            Some (MarkLocation l) \<Rightarrow>
              (case registered_locations meta l of
                 Some info \<Rightarrow> b = CoerceType {type_name info}
               | None \<Rightarrow> False)
          | _ \<Rightarrow> False)
       else True) \<and>
      inserted_ok meta out ins)"
| "inserted_ok meta out ins = False"

subsection \<open>Passes 4.3 and 4.4\<close>

text \<open>The expressions a block holds, and the locations an expression refers to.\<close>

fun block_expressions :: "block \<Rightarrow> expression list" where
  "block_expressions (Filter predicate) = [predicate]"
| "block_expressions (OtherBlock tag exprs) = exprs"
| "block_expressions b = []"


text \<open>A \<open>LocalField\<close> occurs somewhere in the expression, somewhere in the block.\<close>

fun has_local_field :: "expression \<Rightarrow> bool" where
  "has_local_field (LocalField field_name field_type) = True"
| "has_local_field (ContextField l field_type) = False"
| "has_local_field (FoldedContextField l field_type) = False"
| "has_local_field (OtherExpression tag locs args) = list_ex has_local_field args"

definition block_has_local_field :: "block \<Rightarrow> bool" where
  "block_has_local_field b = list_ex has_local_field (block_expressions b)"

text \<open>
  The substitution of section 4.4 of the specification, written as a structural
  recursion: every \<open>LocalField\<close> becomes the context field of its name at location \<open>l\<close>,
  a \<open>FoldedContextField\<close> when \<open>l\<close> is a fold-scope location; nothing else changes.
\<close>

fun resolve_local_fields ::
    "(location \<Rightarrow> string \<Rightarrow> location) \<Rightarrow> location \<Rightarrow> expression \<Rightarrow> expression" where
  "resolve_local_fields nav l (LocalField field_name field_type) =
     (if is_FoldScopeLocation l then FoldedContextField (nav l field_name) field_type
      else ContextField (nav l field_name) field_type)"
| "resolve_local_fields nav l (ContextField l' field_type) = ContextField l' field_type"
| "resolve_local_fields nav l (FoldedContextField l' field_type) =
     FoldedContextField l' field_type"
| "resolve_local_fields nav l (OtherExpression tag locs args) =
     OtherExpression tag locs (map (resolve_local_fields nav l) args)"

fun resolve_block :: "(location \<Rightarrow> string \<Rightarrow> location) \<Rightarrow> location \<Rightarrow> block \<Rightarrow> block" where
  "resolve_block nav l (Filter predicate) = Filter (resolve_local_fields nav l predicate)"
| "resolve_block nav l (OtherBlock tag exprs) =
     OtherBlock tag (map (resolve_local_fields nav l) exprs)"
| "resolve_block nav l b = b"

subsection \<open>Pass 4.5\<close>

text \<open>
  The flag ``inside optional scope'' of section 4.5 of the specification, as a function of
  the blocks scanned so far: an optional \<open>Traverse\<close> sets it, a \<open>Backtrack\<close> to \<open>l\<close>
  recomputes it from the nesting depth the table records for \<open>l\<close>, every other block
  leaves it as it is. \<open>scope_flags meta w xs\<close> lists the value of the flag at the moment
  each block of \<open>xs\<close> is scanned, \<open>final_flag meta w xs\<close> is its value after the last one;
  \<open>w\<close> is the value before the first.
\<close>

definition optional_depth_positive :: "query_metadata_table \<Rightarrow> location \<Rightarrow> bool" where
  "optional_depth_positive meta l =
     (case registered_locations meta l of
        None \<Rightarrow> False
      | Some info \<Rightarrow> optional_scopes_depth info > 0)"

fun scope_flag_after :: "query_metadata_table \<Rightarrow> bool \<Rightarrow> block \<Rightarrow> bool" where
  "scope_flag_after meta w (Traverse d e opt) = (opt \<or> w)"
| "scope_flag_after meta w (Backtrack l) = optional_depth_positive meta l"
| "scope_flag_after meta w b = w"

fun scope_flags :: "query_metadata_table \<Rightarrow> bool \<Rightarrow> block list \<Rightarrow> bool list" where
  "scope_flags meta w [] = []"
| "scope_flags meta w (b # rest) = w # scope_flags meta (scope_flag_after meta w b) rest"

fun final_flag :: "query_metadata_table \<Rightarrow> bool \<Rightarrow> block list \<Rightarrow> bool" where
  "final_flag meta w [] = w"
| "final_flag meta w (b # rest) = final_flag meta (scope_flag_after meta w b) rest"

text \<open>
  The \<open>Filter\<close> blocks scanned while the flag is set, in their order, and all the other
  blocks, in their order.
\<close>

definition hoisted_filters :: "query_metadata_table \<Rightarrow> bool \<Rightarrow> block list \<Rightarrow> block list" where
  "hoisted_filters meta w xs =
     map fst (filter (\<lambda>p. snd p \<and> is_Filter (fst p)) (zip xs (scope_flags meta w xs)))"

definition kept_blocks :: "query_metadata_table \<Rightarrow> bool \<Rightarrow> block list \<Rightarrow> block list" where
  "kept_blocks meta w xs =
     map fst (filter (\<lambda>p. \<not> (snd p \<and> is_Filter (fst p))) (zip xs (scope_flags meta w xs)))"

text \<open>The table knows the location of every \<open>Backtrack\<close> of the sequence.\<close>

fun backtrack_registered :: "query_metadata_table \<Rightarrow> block \<Rightarrow> bool" where
  "backtrack_registered meta (Backtrack l) = (registered_locations meta l \<noteq> None)"
| "backtrack_registered meta b = True"

definition backtracks_registered :: "query_metadata_table \<Rightarrow> block list \<Rightarrow> bool" where
  "backtracks_registered meta xs = list_all (backtrack_registered meta) xs"

text \<open>A block that is no \<open>Filter\<close>, no \<open>Backtrack\<close> and no \<open>GlobalOperationsStart\<close>.\<close>

fun neutral_block :: "block \<Rightarrow> bool" where
  "neutral_block (Filter predicate) = False"
| "neutral_block (Backtrack l) = False"
| "neutral_block GlobalOperationsStart = False"
| "neutral_block b = True"

text \<open>A block that does not end a scope: no \<open>Backtrack\<close> and no \<open>GlobalOperationsStart\<close>.\<close>

fun stays_in_scope :: "block \<Rightarrow> bool" where
  "stays_in_scope (Backtrack l) = False"
| "stays_in_scope GlobalOperationsStart = False"
| "stays_in_scope b = True"


subsection \<open>Concrete inputs\<close>

text \<open>
  A metadata table for a query rooted at \<open>A\<close> with an optional traversal to \<open>B\<close> and,
  nested in it, an optional traversal to \<open>C\<close>; \<open>A2\<close> is the revisit of \<open>A\<close>. The second
  table has a revisit of a revisit, recorded step by step.
\<close>

definition example_metadata :: query_metadata_table where
  "example_metadata =
     \<lparr>registered_locations =
        [Location ''A'' \<mapsto> \<lparr>type_name = ''Animal'', optional_scopes_depth = 0\<rparr>,
         Location ''A2'' \<mapsto> \<lparr>type_name = ''Animal'', optional_scopes_depth = 0\<rparr>,
         Location ''B'' \<mapsto> \<lparr>type_name = ''Animal'', optional_scopes_depth = 1\<rparr>,
         Location ''C'' \<mapsto> \<lparr>type_name = ''Species'', optional_scopes_depth = 2\<rparr>],
      revisit_origins = [Location ''A2'' \<mapsto> Location ''A'']\<rparr>"


text \<open>A \<open>navigate_to_field\<close> for the concrete inputs: the field name is appended.\<close>

fun field_location :: "location \<Rightarrow> string \<Rightarrow> location" where
  "field_location (Location p) field_name = Location (p @ ''.'' @ field_name)"
| "field_location (FoldScopeLocation p) field_name = FoldScopeLocation (p @ ''.'' @ field_name)"

section \<open>Auxiliary facts\<close>

subsection \<open>Pass 4.2: the loops over indices and the recursion over the remaining blocks\<close>

declare lookup_loop.simps [simp del]
declare type_bounds_loop.simps [simp del]

lemma lookup_loop_drop: "lookup_loop xs i = lookup_rest (drop i xs)"
proof (induction xs i rule: lookup_loop.induct)
  case (1 xs i)
  show ?case
  proof (cases "i < length xs")
    case False
    then show ?thesis by (subst lookup_loop.simps) simp
  next
    case True
    then have d: "drop i xs = xs ! i # drop (Suc i) xs"
      by (simp add: Cons_nth_drop_Suc)
    show ?thesis
    proof (cases "xs ! i")
      case (Filter predicate)
      with "1.IH"[OF True Filter] True d show ?thesis
        by (subst lookup_loop.simps) simp
    qed (use True d in \<open>subst lookup_loop.simps, simp\<close>)+
  qed
qed

lemma type_bound_step_emit:
  "type_bound_step xs meta i = type_bound_emit meta (xs ! i) (drop (Suc i) xs)"
  by (simp add: type_bound_step_def type_bound_emit_def lookup_loop_drop Let_def)

lemma type_bounds_loop_drop:
  "type_bounds_loop xs meta i acc =
     (case type_bounds_rec (drop i xs) meta of Inl e \<Rightarrow> Inl e | Inr out \<Rightarrow> Inr (acc @ out))"
proof (induction xs meta i acc rule: type_bounds_loop.induct)
  case (1 xs meta i acc)
  show ?case
  proof (cases "i < length xs")
    case False
    then show ?thesis by (subst type_bounds_loop.simps) simp
  next
    case True
    then have d: "drop i xs = xs ! i # drop (Suc i) xs"
      by (simp add: Cons_nth_drop_Suc)
    show ?thesis
    proof (cases "type_bound_step xs meta i")
      case (Inl e)
      with True d show ?thesis
        by (subst type_bounds_loop.simps) (simp add: type_bound_step_emit)
    next
      case (Inr appended)
      with "1.IH"[OF True Inr] True d show ?thesis
        by (subst type_bounds_loop.simps) (simp add: type_bound_step_emit split: sum.splits)
    qed
  qed
qed

lemma insert_explicit_type_bounds_rec:
  "insert_explicit_type_bounds xs meta = type_bounds_rec xs meta"
  by (simp add: insert_explicit_type_bounds_def type_bounds_loop_drop split: sum.splits)

subsection \<open>Pass 4.2\<close>

lemma first_non_filter_simps [simp]:
  "first_non_filter [] = None"
  "first_non_filter (Filter p # bs) = first_non_filter bs"
  "\<not> is_Filter b \<Longrightarrow> first_non_filter (b # bs) = Some b"
  by (simp_all add: first_non_filter_def)

lemma lookup_rest_first_non_filter:
  "lookup_rest bs =
     (case first_non_filter bs of
        None \<Rightarrow> Inr (None, None)
      | Some (CoerceType c) \<Rightarrow> Inr (None, Some (CoerceType c))
      | Some (MarkLocation l) \<Rightarrow> Inr (Some (MarkLocation l), None)
      | Some b \<Rightarrow> Inl UnexpectedBlockFound)"
  by (induction bs rule: lookup_rest.induct) simp_all

lemma type_bound_emit_head:
  "type_bound_emit meta b rest =
     (if type_bound_ok meta (b # rest) 0 then Inr (expected_at meta (b # rest) 0)
      else type_bound_emit meta b rest) \<and>
   (\<not> type_bound_ok meta (b # rest) 0 \<longrightarrow> (\<exists>e. type_bound_emit meta b rest = Inl e))"
  by (auto simp: type_bound_emit_def type_bound_ok_def expected_at_def
      lookup_rest_first_non_filter get_location_info_def
      split: option.splits block.splits)

lemma type_bound_ok_Suc [simp]: "type_bound_ok meta (b # bs) (Suc i) = type_bound_ok meta bs i"
  by (simp add: type_bound_ok_def)

lemma expected_at_Suc [simp]: "expected_at meta (b # bs) (Suc i) = expected_at meta bs i"
  by (simp add: expected_at_def split: option.splits block.splits)

lemma concat_expected_Cons:
  "concat (map (expected_at meta (b # bs)) [0..<Suc n]) =
     expected_at meta (b # bs) 0 @ concat (map (expected_at meta bs) [0..<n])"
proof -
  have "[0..<Suc n] = 0 # map Suc [0..<n]"
    by (simp add: upt_conv_Cons map_Suc_upt del: upt_Suc)
  then show ?thesis by (simp add: comp_def del: upt_Suc)
qed

lemma all_ok_Cons:
  "(\<forall>i<Suc n. type_bound_ok meta (b # bs) i) =
     (type_bound_ok meta (b # bs) 0 \<and> (\<forall>i<n. type_bound_ok meta bs i))"
  by (auto simp: less_Suc_eq_0_disj)

lemma type_bounds_rec_characterisation:
  "if \<forall>i<length xs. type_bound_ok meta xs i
   then type_bounds_rec xs meta =
          Inr (concat (map (expected_at meta xs) [0..<length xs]))
   else (\<exists>e. type_bounds_rec xs meta = Inl e)"
proof (induction xs)
  case Nil
  then show ?case by simp
next
  case (Cons b bs)
  show ?case
  proof (cases "type_bound_ok meta (b # bs) 0")
    case False
    then obtain e where "type_bound_emit meta b bs = Inl e"
      using type_bound_emit_head by blast
    with False show ?thesis by (auto simp del: upt_Suc)
  next
    case True
    then have st: "type_bound_emit meta b bs = Inr (expected_at meta (b # bs) 0)"
      using type_bound_emit_head[of meta b bs] by simp
    show ?thesis
    proof (cases "\<forall>i<length bs. type_bound_ok meta bs i")
      case T2: True
      with Cons have "type_bounds_rec bs meta =
          Inr (concat (map (expected_at meta bs) [0..<length bs]))" by simp
      with True T2 st show ?thesis
        by (simp add: all_ok_Cons concat_expected_Cons del: upt_Suc)
    next
      case F2: False
      with Cons obtain e where "type_bounds_rec bs meta = Inl e" by auto
      with F2 st show ?thesis
        by (simp add: all_ok_Cons del: upt_Suc)
    qed
  qed
qed

lemma type_bound_emit_shape:
  assumes "type_bound_emit meta b rest = Inr app"
  shows "app = [b] \<or>
         (is_Traverse_Fold_Recurse b \<and>
          (\<exists>l info. first_non_filter rest = Some (MarkLocation l) \<and>
             registered_locations meta l = Some info \<and>
             app = [b, CoerceType {type_name info}]))"
  using assms
  by (auto simp: type_bound_emit_def lookup_rest_first_non_filter get_location_info_def
      split: if_splits option.splits block.splits)

lemma type_bound_emit_no_insert:
  assumes "type_bound_emit meta b rest = Inr [b]"
    and "first_non_filter rest' = first_non_filter rest"
  shows "type_bound_emit meta b rest' = Inr [b]"
  using assms
  by (auto simp: type_bound_emit_def lookup_rest_first_non_filter get_location_info_def
      split: if_splits option.splits block.splits)

lemma type_bound_emit_not_trigger:
  "\<not> is_Traverse_Fold_Recurse b \<Longrightarrow> type_bound_emit meta b rest = Inr [b]"
  by (simp add: type_bound_emit_def)

lemma type_bound_emit_coerce_next:
  "type_bound_emit meta b (CoerceType c # rest) = Inr [b]"
  by (simp add: type_bound_emit_def)

lemma rec_Cons_Inr:
  assumes "type_bounds_rec (b # rest) meta = Inr out"
  obtains app out' where "type_bound_emit meta b rest = Inr app"
    and "type_bounds_rec rest meta = Inr out'" and "out = app @ out'"
  using assms by (auto split: sum.splits)

lemma first_non_filter_output:
  "type_bounds_rec xs meta = Inr out \<Longrightarrow> first_non_filter out = first_non_filter xs"
proof (induction xs arbitrary: out)
  case Nil
  then show ?case by simp
next
  case (Cons b rest)
  from Cons.prems obtain app out' where
    st: "type_bound_emit meta b rest = Inr app" and
    r: "type_bounds_rec rest meta = Inr out'" and o: "out = app @ out'"
    by (rule rec_Cons_Inr)
  show ?case
  proof (cases "is_Filter b")
    case True
    then obtain p where b: "b = Filter p" by (cases b) auto
    with st have "app = [b]" by (simp add: type_bound_emit_def)
    with b o Cons.IH[OF r] show ?thesis by simp
  next
    case False
    from type_bound_emit_shape[OF st] obtain tl where "app = b # tl" by auto
    with False o show ?thesis by simp
  qed
qed

lemma lacks_coerce_type_Suc [simp]: "lacks_coerce_type (b # bs) (Suc i) = lacks_coerce_type bs i"
  by (simp add: lacks_coerce_type_def)

lemma filter_lacks_Cons:
  "length (filter (lacks_coerce_type (b # bs)) [0..<Suc n]) =
     (if lacks_coerce_type (b # bs) 0 then 1 else 0) + length (filter (lacks_coerce_type bs) [0..<n])"
proof -
  have "[0..<Suc n] = 0 # map Suc [0..<n]"
    by (simp add: upt_conv_Cons map_Suc_upt del: upt_Suc)
  then show ?thesis by (simp add: filter_map comp_def del: upt_Suc)
qed

lemma type_bound_emit_length:
  "type_bound_emit meta b rest = Inr app \<Longrightarrow>
     length app = 1 + (if lacks_coerce_type (b # rest) 0 then 1 else 0)"
  by (auto simp: type_bound_emit_def lacks_coerce_type_def lookup_rest_first_non_filter
      get_location_info_def split: if_splits option.splits block.splits)

lemma type_bounds_rec_length:
  "type_bounds_rec xs meta = Inr out \<Longrightarrow>
     length out = length xs + length (filter (lacks_coerce_type xs) [0..<length xs])"
proof (induction xs arbitrary: out)
  case Nil
  then show ?case by simp
next
  case (Cons b rest)
  from Cons.prems obtain app out' where
    st: "type_bound_emit meta b rest = Inr app" and
    r: "type_bounds_rec rest meta = Inr out'" and o: "out = app @ out'"
    by (rule rec_Cons_Inr)
  from type_bound_emit_length[OF st] Cons.IH[OF r] o show ?case
    by (simp add: filter_lacks_Cons del: upt_Suc)
qed

lemma inserted_ok_nth:
  "inserted_ok meta out ins \<Longrightarrow> j < length out \<Longrightarrow> ins ! j \<Longrightarrow>
     (\<exists>l info. first_non_filter (drop (Suc j) out) = Some (MarkLocation l) \<and>
        registered_locations meta l = Some info \<and> out ! j = CoerceType {type_name info})"
proof (induction meta out ins arbitrary: j rule: inserted_ok.induct)
  case (2 meta b out m ins)
  then show ?case
    by (cases j) (auto split: option.splits block.splits if_splits)
qed auto

lemma inserted_ok_length: "inserted_ok meta out ins \<Longrightarrow> length ins = length out"
  by (induction meta out ins rule: inserted_ok.induct) (auto split: if_splits)

lemma type_bounds_rec_marks:
  "type_bounds_rec xs meta = Inr out \<Longrightarrow>
     \<exists>ins. inserted_ok meta out ins \<and>
           map fst (filter (\<lambda>p. \<not> snd p) (zip out ins)) = xs"
proof (induction xs arbitrary: out)
  case Nil
  then show ?case by (auto intro: exI[of _ "[]"])
next
  case (Cons b rest)
  from Cons.prems obtain app out' where
    st: "type_bound_emit meta b rest = Inr app" and
    r: "type_bounds_rec rest meta = Inr out'" and o: "out = app @ out'"
    by (rule rec_Cons_Inr)
  from Cons.IH[OF r] obtain ins' where
    ok: "inserted_ok meta out' ins'" and
    keep: "map fst (filter (\<lambda>p. \<not> snd p) (zip out' ins')) = rest" by blast
  have fnf: "first_non_filter out' = first_non_filter rest" by (rule first_non_filter_output[OF r])
  from type_bound_emit_shape[OF st] show ?case
  proof
    assume "app = [b]"
    with o ok keep show ?thesis by (auto intro!: exI[of _ "False # ins'"])
  next
    assume "is_Traverse_Fold_Recurse b \<and>
          (\<exists>l info. first_non_filter rest = Some (MarkLocation l) \<and>
             registered_locations meta l = Some info \<and>
             app = [b, CoerceType {type_name info}])"
    with o ok keep fnf show ?thesis by (auto intro!: exI[of _ "False # True # ins'"])
  qed
qed

lemma rec_append_Inr:
  "type_bounds_rec (pre @ ys) meta = Inr out \<Longrightarrow>
     \<exists>op oy. type_bounds_rec ys meta = Inr oy \<and> out = op @ oy"
proof (induction pre arbitrary: out)
  case Nil
  then show ?case by simp
next
  case (Cons b pre)
  from Cons.prems obtain app out' where
    r: "type_bounds_rec (pre @ ys) meta = Inr out'" and o: "out = app @ out'"
    by (auto split: sum.splits)
  from Cons.IH[OF r] obtain op oy where
    "type_bounds_rec ys meta = Inr oy" "out' = op @ oy" by blast
  with o have "type_bounds_rec ys meta = Inr oy \<and> out = (app @ op) @ oy" by simp
  then show ?case by blast
qed

lemma rec_append_Inl:
  "type_bounds_rec ys meta = Inl e \<Longrightarrow>
     \<exists>e'. type_bounds_rec (pre @ ys) meta = Inl e'"
  by (induction pre) (auto split: sum.splits)

lemma first_non_filter_filters:
  "\<forall>f \<in> set fs. is_Filter f \<Longrightarrow> first_non_filter (fs @ ys) = first_non_filter ys"
  by (simp add: first_non_filter_def dropWhile_append)

lemma first_non_filter_all_filters:
  "\<forall>f \<in> set fs. is_Filter f \<Longrightarrow> first_non_filter fs = None"
  using first_non_filter_filters[of fs "[]"] by simp

lemma rec_filters:
  "\<forall>f \<in> set fs. is_Filter f \<Longrightarrow>
     type_bounds_rec (fs @ ys) meta =
       (case type_bounds_rec ys meta of Inl e \<Rightarrow> Inl e | Inr oy \<Rightarrow> Inr (fs @ oy))"
proof (induction fs)
  case Nil
  then show ?case by (simp split: sum.splits)
next
  case (Cons f fs)
  then obtain p where "f = Filter p" by (cases f) auto
  with Cons show ?case by (simp add: type_bound_emit_def split: sum.splits)
qed

lemma type_bound_emit_coerce_found:
  assumes "\<forall>f \<in> set fs. is_Filter f"
  shows "type_bound_emit meta b (fs @ CoerceType c # rest) = Inr [b]"
  using assms
  by (simp add: type_bound_emit_def lookup_rest_first_non_filter first_non_filter_filters)

lemma type_bound_emit_mark_found:
  assumes "\<forall>f \<in> set fs. is_Filter f" and "is_Traverse_Fold_Recurse b"
  shows "type_bound_emit meta b (fs @ MarkLocation l # rest) =
     (case registered_locations meta l of
        None \<Rightarrow> Inl LocationNotRegistered
      | Some info \<Rightarrow> Inr [b, CoerceType {type_name info}])"
  using assms
  by (simp add: type_bound_emit_def lookup_rest_first_non_filter first_non_filter_filters
      get_location_info_def split: option.splits)

lemma type_bound_emit_other_found:
  assumes "\<forall>f \<in> set fs. is_Filter f" and "is_Traverse_Fold_Recurse b"
    and "\<not> is_Filter x" and "\<not> is_CoerceType x" and "\<not> is_MarkLocation x"
  shows "\<exists>e. type_bound_emit meta b (fs @ x # rest) = Inl e"
  using assms
  by (cases x)
     (simp_all add: type_bound_emit_def lookup_rest_first_non_filter first_non_filter_filters)

lemma type_bound_emit_end:
  assumes "\<forall>f \<in> set fs. is_Filter f" and "is_Traverse_Fold_Recurse b"
  shows "type_bound_emit meta b fs = Inl IllegalIRBlocks"
  using assms
  by (simp add: type_bound_emit_def lookup_rest_first_non_filter first_non_filter_all_filters)

subsection \<open>Pass 4.3\<close>

lemma remove_loop_length:
  "length (remove_loop tr xs) + length (filter (is_revisit_MarkLocation tr) xs) = length xs"
  by (induction xs) auto







subsection \<open>Pass 4.4\<close>

lemma visit_resolve:
  "visit_and_update (visitor_func_base nav l) e = resolve_local_fields nav l e"
  by (induction e) (auto simp: visitor_func_base_def Let_def)

lemma visit_resolve_block:
  "visit_and_update_expressions (visitor_func_base nav l) b = resolve_block nav l b"
  by (cases b) (auto simp: visit_resolve)

lemma resolve_no_local: "\<not> has_local_field (resolve_local_fields nav l e)"
  by (induction e) (auto simp: list_ex_iff)

lemma resolve_block_no_local: "\<not> block_has_local_field (resolve_block nav l b)"
  by (cases b) (auto simp: block_has_local_field_def list_ex_iff resolve_no_local)


lemma rewrite_loop_append:
  "rewrite_loop nav (xs @ ys) st = rewrite_loop nav ys (rewrite_loop nav xs st)"
  by (induction nav xs st rule: rewrite_loop.induct) auto

lemma rewrite_loop_no_mark:
  "\<forall>b \<in> set buf. \<not> is_MarkLocation b \<Longrightarrow>
     rewrite_loop nav buf (new, pending) = (new, pending @ buf)"
proof (induction buf arbitrary: pending)
  case Nil then show ?case by simp
next
  case (Cons b buf)
  then show ?case by (cases b) auto
qed


lemma rewrite_loop_length:
  "rewrite_loop nav xs (new, pending) = (new', pending') \<Longrightarrow>
     length new' + length pending' = length new + length pending + length xs"
  by (induction nav xs "(new, pending)" arbitrary: new pending rule: rewrite_loop.induct) auto

lemma replace_total:
  "\<exists>out. replace_local_fields_with_context_fields nav xs = Inr out \<and> length out = length xs \<and>
     out = fst (rewrite_loop nav xs ([], [])) @ snd (rewrite_loop nav xs ([], []))"
proof -
  obtain n p where r: "rewrite_loop nav xs ([], []) = (n, p)" by (cases "rewrite_loop nav xs ([], [])")
  from rewrite_loop_length[OF r] have "length n + length p = length xs" by simp
  with r show ?thesis by (simp add: replace_local_fields_with_context_fields_def)
qed


subsection \<open>Pass 4.5\<close>

lemma hoisted_simps [simp]:
  "hoisted_filters meta w [] = []"
  "hoisted_filters meta w (b # rest) =
     (if w \<and> is_Filter b then [b] else []) @ hoisted_filters meta (scope_flag_after meta w b) rest"
  by (simp_all add: hoisted_filters_def)

lemma kept_simps [simp]:
  "kept_blocks meta w [] = []"
  "kept_blocks meta w (b # rest) =
     (if w \<and> is_Filter b then [] else [b]) @ kept_blocks meta (scope_flag_after meta w b) rest"
  by (simp_all add: kept_blocks_def)

lemma backtracks_registered_simps [simp]:
  "backtracks_registered meta [] = True"
  "backtracks_registered meta (b # rest) = (backtrack_registered meta b \<and> backtracks_registered meta rest)"
  "backtracks_registered meta (xs @ ys) = (backtracks_registered meta xs \<and> backtracks_registered meta ys)"
  by (simp_all add: backtracks_registered_def)

lemma hoist_step_plain:
  assumes "b \<noteq> GlobalOperationsStart" and "backtrack_registered meta b"
  shows "hoist_step meta st b =
     Inr (st\<lparr>new_ir_blocks := new_ir_blocks st @ (if within_optional_scope st \<and> is_Filter b then [] else [b]),
             global_filters := global_filters st @ (if within_optional_scope st \<and> is_Filter b then [b] else []),
             within_optional_scope := scope_flag_after meta (within_optional_scope st) b\<rparr>)"
  using assms
  by (cases b; cases st)
     (auto simp: hoist_step_def hoist_branch_def get_location_info_def optional_depth_positive_def
       split: option.splits)

lemma hoist_step_global:
  "hoist_step meta st GlobalOperationsStart =
     Inr (st\<lparr>new_ir_blocks := new_ir_blocks st @ GlobalOperationsStart # global_filters st,
             global_filters := []\<rparr>)"
  by (cases st) (simp add: hoist_step_def hoist_branch_def)

lemma hoist_loop_plain:
  assumes "GlobalOperationsStart \<notin> set xs" and "backtracks_registered meta xs"
  shows "hoist_loop meta st xs =
     Inr (st\<lparr>new_ir_blocks := new_ir_blocks st @ kept_blocks meta (within_optional_scope st) xs,
             global_filters := global_filters st @ hoisted_filters meta (within_optional_scope st) xs,
             within_optional_scope := final_flag meta (within_optional_scope st) xs\<rparr>)"
  using assms
proof (induction xs arbitrary: st)
  case Nil
  then show ?case by simp
next
  case (Cons b rest)
  then have "b \<noteq> GlobalOperationsStart" "backtrack_registered meta b"
    "GlobalOperationsStart \<notin> set rest" "backtracks_registered meta rest" by auto
  then show ?case
    by (simp add: hoist_step_plain Cons.IH)
qed

lemma hoist_loop_append:
  "hoist_loop meta st (xs @ ys) =
     (case hoist_loop meta st xs of Inl e \<Rightarrow> Inl e | Inr st' \<Rightarrow> hoist_loop meta st' ys)"
  by (induction xs arbitrary: st) (auto split: sum.splits)

lemma move_filters_no_global:
  assumes "GlobalOperationsStart \<notin> set xs" and "backtracks_registered meta xs"
  shows "move_filters_in_optional_locations_to_global_operations xs meta = Inr (kept_blocks meta False xs)"
  using assms
  by (simp add: move_filters_in_optional_locations_to_global_operations_def hoist_loop_plain)


lemma move_filters_one_global:
  assumes "GlobalOperationsStart \<notin> set pre" and "GlobalOperationsStart \<notin> set post"
    and "backtracks_registered meta (pre @ post)"
  shows "move_filters_in_optional_locations_to_global_operations (pre @ GlobalOperationsStart # post) meta =
     Inr (kept_blocks meta False pre @ GlobalOperationsStart # hoisted_filters meta False pre
          @ kept_blocks meta (final_flag meta False pre) post)"
  using assms
  by (simp add: move_filters_in_optional_locations_to_global_operations_def hoist_loop_append
      hoist_loop_plain hoist_step_global)

lemma move_filters_after_last_global:
  assumes "GlobalOperationsStart \<notin> set post" and "backtracks_registered meta post"
    and "hoist_loop meta \<lparr>new_ir_blocks = [], global_filters = [], within_optional_scope = False\<rparr> pre = Inr st"
  shows "move_filters_in_optional_locations_to_global_operations (pre @ GlobalOperationsStart # post) meta =
     Inr (new_ir_blocks st @ GlobalOperationsStart # global_filters st
          @ kept_blocks meta (within_optional_scope st) post)"
  using assms
  by (simp add: move_filters_in_optional_locations_to_global_operations_def hoist_loop_append
      hoist_loop_plain hoist_step_global)

lemma final_flag_append:
  "final_flag meta w (xs @ ys) = final_flag meta (final_flag meta w xs) ys"
  by (induction xs arbitrary: w) auto

lemma kept_append:
  "kept_blocks meta w (xs @ ys) = kept_blocks meta w xs @ kept_blocks meta (final_flag meta w xs) ys"
  by (induction xs arbitrary: w) auto

lemma hoisted_append:
  "hoisted_filters meta w (xs @ ys) =
     hoisted_filters meta w xs @ hoisted_filters meta (final_flag meta w xs) ys"
  by (induction xs arbitrary: w) auto

lemma neutral_kept: "list_all neutral_block p \<Longrightarrow> kept_blocks meta w p = p"
proof (induction p arbitrary: w)
  case Nil then show ?case by simp
next
  case (Cons b p) then show ?case by (cases b) auto
qed

lemma neutral_hoisted: "list_all neutral_block p \<Longrightarrow> hoisted_filters meta w p = []"
proof (induction p arbitrary: w)
  case Nil then show ?case by simp
next
  case (Cons b p) then show ?case by (cases b) auto
qed

lemma neutral_final_flag: "list_all neutral_block p \<Longrightarrow> final_flag meta True p = True"
proof (induction p)
  case Nil then show ?case by simp
next
  case (Cons b p) then show ?case by (cases b) auto
qed

lemma neutral_registered: "list_all neutral_block p \<Longrightarrow> backtracks_registered meta p"
proof (induction p)
  case Nil then show ?case by simp
next
  case (Cons b p) then show ?case by (cases b) auto
qed

lemma neutral_no_global: "list_all neutral_block p \<Longrightarrow> GlobalOperationsStart \<notin> set p"
  by (induction p) auto

lemma hoist_step_flag:
  "hoist_step meta st b = Inr st' \<Longrightarrow>
     within_optional_scope st' = scope_flag_after meta (within_optional_scope st) b"
  by (cases b; cases st)
     (auto simp: hoist_step_def hoist_branch_def get_location_info_def optional_depth_positive_def
       split: option.splits if_splits)

lemma hoist_step_total:
  "backtrack_registered meta b \<Longrightarrow> \<exists>st'. hoist_step meta st b = Inr st'"
  by (cases "b = GlobalOperationsStart") (simp_all add: hoist_step_global hoist_step_plain)

lemma hoist_loop_total:
  "backtracks_registered meta xs \<Longrightarrow>
     \<exists>st'. hoist_loop meta st xs = Inr st' \<and>
       within_optional_scope st' = final_flag meta (within_optional_scope st) xs"
proof (induction xs arbitrary: st)
  case Nil then show ?case by simp
next
  case (Cons b rest)
  then obtain st1 where s: "hoist_step meta st b = Inr st1"
    using hoist_step_total[of meta b st] by auto
  from Cons obtain st' where "hoist_loop meta st1 rest = Inr st'"
    "within_optional_scope st' = final_flag meta (within_optional_scope st1) rest"
    by fastforce
  with s hoist_step_flag[OF s] show ?case by simp
qed


subsection \<open>Further facts on pass 4.4\<close>


lemma MarkLocation_no_local_field [simp]: "\<not> block_has_local_field (MarkLocation l)"
  by (simp add: block_has_local_field_def)

lemma rewrite_loop_keeps_resolved:
  "\<forall>b \<in> set new. \<not> block_has_local_field b \<Longrightarrow>
     \<forall>b \<in> set (fst (rewrite_loop nav xs (new, pending))). \<not> block_has_local_field b"
proof (induction xs arbitrary: new pending)
  case Nil
  then show ?case by simp
next
  case (Cons x xs)
  show ?case
  proof (cases x)
    case (MarkLocation l)
    have "\<forall>b \<in> set (new @ map (visit_and_update_expressions (visitor_func_base nav l)) pending
                       @ [MarkLocation l]). \<not> block_has_local_field b"
      using Cons.prems
      by (auto simp: visit_resolve_block resolve_block_no_local)
    from Cons.IH[OF this] MarkLocation show ?thesis by simp
  qed (use Cons.IH[OF Cons.prems] in simp_all)
qed


lemma replace_result:
  "replace_local_fields_with_context_fields nav xs =
     Inr (fst (rewrite_loop nav xs ([], [])) @ snd (rewrite_loop nav xs ([], [])))"
  using replace_total[of nav xs] by auto

subsection \<open>Further facts on pass 4.5\<close>

lemma in_scope_kept:
  "list_all stays_in_scope q \<Longrightarrow> kept_blocks meta True q = filter (\<lambda>b. \<not> is_Filter b) q"
proof (induction q)
  case Nil then show ?case by simp
next
  case (Cons b q) then show ?case by (cases b) auto
qed

lemma in_scope_hoisted:
  "list_all stays_in_scope q \<Longrightarrow> hoisted_filters meta True q = filter is_Filter q"
proof (induction q)
  case Nil then show ?case by simp
next
  case (Cons b q) then show ?case by (cases b) auto
qed

lemma in_scope_final_flag: "list_all stays_in_scope q \<Longrightarrow> final_flag meta True q = True"
proof (induction q)
  case Nil then show ?case by simp
next
  case (Cons b q) then show ?case by (cases b) auto
qed

lemma in_scope_registered: "list_all stays_in_scope q \<Longrightarrow> backtracks_registered meta q"
proof (induction q)
  case Nil then show ?case by simp
next
  case (Cons b q) then show ?case by (cases b) auto
qed

lemma in_scope_no_global: "list_all stays_in_scope q \<Longrightarrow> GlobalOperationsStart \<notin> set q"
  by (induction q) auto

section \<open>The properties of the lowering passes\<close>




text \<open>
  Claim C2 (pass 4.5, the flag is recomputed at each \<open>Backtrack\<close>). Whatever the flag was,
  after the step for a \<open>Backtrack\<close> to a location the table knows it is set if and only if
  the nesting depth recorded for that location is greater than zero. So for two nested
  optional scopes every \<open>Filter\<close> of the outer scope, in front of the inner scope
  (\<open>q1\<close>) or behind the inner \<open>Backtrack\<close> (\<open>q3\<close>), and every \<open>Filter\<close> of the inner
  scope (\<open>q2\<close>) is moved behind the \<open>GlobalOperationsStart\<close>, in the original order.
  The segments \<open>q1\<close>, \<open>q2\<close> and \<open>q3\<close> hold no further \<open>Backtrack\<close> and no
  \<open>GlobalOperationsStart\<close>; \<open>p0\<close> and \<open>p6\<close> hold no \<open>Filter\<close> either.
\<close>

theorem flag_recomputed_at_backtrack:
  assumes "registered_locations meta inner = Some inner_info"
    and "optional_scopes_depth inner_info > 0"
    and "registered_locations meta outer = Some outer_info"
    and "list_all neutral_block (p0 @ p6)"
    and "list_all stays_in_scope (q1 @ q2 @ q3)"
  shows
    "(\<forall>st l info. registered_locations meta l = Some info \<longrightarrow>
        (\<exists>st'. hoist_step meta st (Backtrack l) = Inr st' \<and>
           within_optional_scope st' = (optional_scopes_depth info > 0))) \<and>
     move_filters_in_optional_locations_to_global_operations
       (p0 @ Traverse d1 e1 True # q1 @ Traverse d2 e2 True # q2 @ Backtrack inner # q3 @
        Backtrack outer # p6 @ [GlobalOperationsStart]) meta =
     Inr (p0 @ Traverse d1 e1 True # filter (\<lambda>b. \<not> is_Filter b) q1 @
          Traverse d2 e2 True # filter (\<lambda>b. \<not> is_Filter b) q2 @
          Backtrack inner # filter (\<lambda>b. \<not> is_Filter b) q3 @
          Backtrack outer # p6 @
          GlobalOperationsStart # filter is_Filter q1 @ filter is_Filter q2 @ filter is_Filter q3)"
proof
  show "\<forall>st l info. registered_locations meta l = Some info \<longrightarrow>
        (\<exists>st'. hoist_step meta st (Backtrack l) = Inr st' \<and>
           within_optional_scope st' = (optional_scopes_depth info > 0))"
  proof (intro allI impI)
    fix st l info
    assume reg: "registered_locations meta l = Some info"
    then obtain st' where st': "hoist_step meta st (Backtrack l) = Inr st'"
      using hoist_step_total[of meta "Backtrack l" st] by auto
    from hoist_step_flag[OF st'] reg
    have "within_optional_scope st' = (optional_scopes_depth info > 0)"
      by (simp add: optional_depth_positive_def)
    with st' show "\<exists>st'. hoist_step meta st (Backtrack l) = Inr st' \<and>
           within_optional_scope st' = (optional_scopes_depth info > 0)" by blast
  qed
next
  let ?pre = "p0 @ Traverse d1 e1 True # q1 @ Traverse d2 e2 True # q2 @ Backtrack inner # q3 @
        Backtrack outer # p6"
  from assms(4) have n: "list_all neutral_block p0" "list_all neutral_block p6" by simp_all
  from assms(5) have q: "list_all stays_in_scope q1" "list_all stays_in_scope q2"
    "list_all stays_in_scope q3" by simp_all
  have inner: "optional_depth_positive meta inner"
    using assms(1,2) by (simp add: optional_depth_positive_def)
  have g: "GlobalOperationsStart \<notin> set ?pre"
    using n q by (simp add: neutral_no_global in_scope_no_global)
  have r: "backtracks_registered meta (?pre @ [])"
    using n q assms(1,3) by (simp add: neutral_registered in_scope_registered)
  have k: "kept_blocks meta False ?pre =
      p0 @ Traverse d1 e1 True # filter (\<lambda>b. \<not> is_Filter b) q1 @
          Traverse d2 e2 True # filter (\<lambda>b. \<not> is_Filter b) q2 @
          Backtrack inner # filter (\<lambda>b. \<not> is_Filter b) q3 @ Backtrack outer # p6"
    using n q inner
    by (simp add: kept_append final_flag_append neutral_kept in_scope_kept in_scope_final_flag)
  have h: "hoisted_filters meta False ?pre =
      filter is_Filter q1 @ filter is_Filter q2 @ filter is_Filter q3"
    using n q inner
    by (simp add: hoisted_append final_flag_append neutral_hoisted in_scope_hoisted
        in_scope_final_flag)
  have "move_filters_in_optional_locations_to_global_operations
          (?pre @ GlobalOperationsStart # []) meta =
        Inr (kept_blocks meta False ?pre @ GlobalOperationsStart #
             hoisted_filters meta False ?pre @ kept_blocks meta (final_flag meta False ?pre) [])"
    using g r by (intro move_filters_one_global) simp_all
  then show "move_filters_in_optional_locations_to_global_operations
       (p0 @ Traverse d1 e1 True # q1 @ Traverse d2 e2 True # q2 @ Backtrack inner # q3 @
        Backtrack outer # p6 @ [GlobalOperationsStart]) meta =
     Inr (p0 @ Traverse d1 e1 True # filter (\<lambda>b. \<not> is_Filter b) q1 @
          Traverse d2 e2 True # filter (\<lambda>b. \<not> is_Filter b) q2 @
          Backtrack inner # filter (\<lambda>b. \<not> is_Filter b) q3 @
          Backtrack outer # p6 @
          GlobalOperationsStart # filter is_Filter q1 @ filter is_Filter q2 @ filter is_Filter q3)"
    by (simp add: k h)
qed

theorem flag_recomputed_at_backtrack_witness:
  "hoist_step example_metadata
     \<lparr>new_ir_blocks = [], global_filters = [], within_optional_scope = False\<rparr>
     (Backtrack (Location ''B'')) =
   Inr \<lparr>new_ir_blocks = [Backtrack (Location ''B'')], global_filters = [],
        within_optional_scope = True\<rparr> \<and>
   move_filters_in_optional_locations_to_global_operations
     [QueryRoot, MarkLocation (Location ''A''),
      Traverse ''out'' ''Animal_ParentOf'' True, MarkLocation (Location ''B''),
      Traverse ''out'' ''Animal_OfSpecies'' True, MarkLocation (Location ''C''),
      Filter (ContextField (Location ''C.name'') ''String''), Backtrack (Location ''B''),
      Filter (ContextField (Location ''B.name'') ''String''), Backtrack (Location ''A''),
      GlobalOperationsStart] example_metadata =
   Inr [QueryRoot, MarkLocation (Location ''A''),
        Traverse ''out'' ''Animal_ParentOf'' True, MarkLocation (Location ''B''),
        Traverse ''out'' ''Animal_OfSpecies'' True, MarkLocation (Location ''C''),
        Backtrack (Location ''B''), Backtrack (Location ''A''), GlobalOperationsStart,
        Filter (ContextField (Location ''C.name'') ''String''),
        Filter (ContextField (Location ''B.name'') ''String'')]"
proof -
  have inner: "registered_locations example_metadata (Location ''B'') =
      Some \<lparr>type_name = ''Animal'', optional_scopes_depth = 1\<rparr>"
    by (simp add: example_metadata_def)
  have depth: "optional_scopes_depth \<lparr>type_name = ''Animal'', optional_scopes_depth = 1\<rparr> > 0"
    by simp
  have outer: "registered_locations example_metadata (Location ''A'') =
      Some \<lparr>type_name = ''Animal'', optional_scopes_depth = 0\<rparr>"
    by (simp add: example_metadata_def)
  have neutral: "list_all neutral_block ([QueryRoot, MarkLocation (Location ''A'')] @ [])"
    by simp
  have scopes: "list_all stays_in_scope
      ([MarkLocation (Location ''B'')] @
       [MarkLocation (Location ''C''), Filter (ContextField (Location ''C.name'') ''String'')] @
       [Filter (ContextField (Location ''B.name'') ''String'')])"
    by simp
  note law = flag_recomputed_at_backtrack [OF inner depth outer neutral scopes,
      of "''out''" "''Animal_ParentOf''" "''out''" "''Animal_OfSpecies''"]
  have step: "hoist_step example_metadata
     \<lparr>new_ir_blocks = [], global_filters = [], within_optional_scope = False\<rparr>
     (Backtrack (Location ''B'')) =
   Inr \<lparr>new_ir_blocks = [Backtrack (Location ''B'')], global_filters = [],
        within_optional_scope = True\<rparr>"
    by (simp add: hoist_step_def hoist_branch_def get_location_info_def example_metadata_def)
  from law step show ?thesis by simp
qed

text \<open>
  Claim C3 (pass 4.2, the three outcomes of the forward scan). Let \<open>b\<close> be a \<open>Traverse\<close>,
  \<open>Fold\<close> or \<open>Recurse\<close> anywhere in the input, followed by the \<open>Filter\<close> blocks \<open>fs\<close>.
  If a \<open>CoerceType\<close> comes next, the output holds \<open>b\<close>, \<open>fs\<close> and that \<open>CoerceType\<close>
  with nothing in between. If a \<open>MarkLocation\<close> comes next, a \<open>CoerceType\<close> naming the
  declared type of its location stands immediately behind \<open>b\<close>, in front of \<open>fs\<close>. If
  any other block comes next, or the sequence ends, the pass raises a fault.
\<close>

theorem insert_explicit_type_bounds_cases:
  assumes trig: "is_Traverse_Fold_Recurse b" and fs: "\<forall>f \<in> set fs. is_Filter f"
  shows
    "(\<forall>out. insert_explicit_type_bounds (pre @ b # fs @ CoerceType c # rest) meta = Inr out \<longrightarrow>
        (\<exists>op orest. insert_explicit_type_bounds rest meta = Inr orest \<and>
           out = op @ b # fs @ CoerceType c # orest)) \<and>
     (\<forall>out. insert_explicit_type_bounds (pre @ b # fs @ MarkLocation l # rest) meta = Inr out \<longrightarrow>
        (\<exists>op orest info. registered_locations meta l = Some info \<and>
           insert_explicit_type_bounds rest meta = Inr orest \<and>
           out = op @ b # CoerceType {type_name info} # fs @ MarkLocation l # orest)) \<and>
     (\<forall>x. \<not> is_Filter x \<and> \<not> is_CoerceType x \<and> \<not> is_MarkLocation x \<longrightarrow>
        (\<exists>e. insert_explicit_type_bounds (pre @ b # fs @ x # rest) meta = Inl e)) \<and>
     (\<exists>e. insert_explicit_type_bounds (pre @ b # fs) meta = Inl e)"
  unfolding insert_explicit_type_bounds_rec
proof (intro conjI allI impI)
  fix out
  assume "type_bounds_rec (pre @ b # fs @ CoerceType c # rest) meta = Inr out"
  then obtain op oy where
    oy: "type_bounds_rec (b # fs @ CoerceType c # rest) meta = Inr oy"
    and out: "out = op @ oy"
    using rec_append_Inr by blast
  from oy fs obtain orest where
    "type_bounds_rec rest meta = Inr orest" "oy = b # fs @ CoerceType c # orest"
    by (auto simp: type_bound_emit_coerce_found rec_filters type_bound_emit_not_trigger
        split: sum.splits)
  with out show "\<exists>op orest. type_bounds_rec rest meta = Inr orest \<and>
           out = op @ b # fs @ CoerceType c # orest" by blast
next
  fix out
  assume "type_bounds_rec (pre @ b # fs @ MarkLocation l # rest) meta = Inr out"
  then obtain op oy where
    oy: "type_bounds_rec (b # fs @ MarkLocation l # rest) meta = Inr oy"
    and out: "out = op @ oy"
    using rec_append_Inr by blast
  from oy fs trig obtain orest info where
    "registered_locations meta l = Some info"
    "type_bounds_rec rest meta = Inr orest"
    "oy = b # CoerceType {type_name info} # fs @ MarkLocation l # orest"
    by (auto simp: type_bound_emit_mark_found rec_filters type_bound_emit_not_trigger
        split: sum.splits option.splits)
  with out show "\<exists>op orest info. registered_locations meta l = Some info \<and>
           type_bounds_rec rest meta = Inr orest \<and>
           out = op @ b # CoerceType {type_name info} # fs @ MarkLocation l # orest" by blast
next
  fix x
  assume "\<not> is_Filter x \<and> \<not> is_CoerceType x \<and> \<not> is_MarkLocation x"
  with type_bound_emit_other_found[OF fs trig, of x meta rest]
  obtain e where "type_bounds_rec (b # fs @ x # rest) meta = Inl e" by auto
  then show "\<exists>e. type_bounds_rec (pre @ b # fs @ x # rest) meta = Inl e"
    by (rule rec_append_Inl)
next
  from type_bound_emit_end[OF fs trig, of meta]
  have "type_bounds_rec (b # fs) meta = Inl IllegalIRBlocks" by simp
  then show "\<exists>e. type_bounds_rec (pre @ b # fs) meta = Inl e"
    by (rule rec_append_Inl)
qed

theorem insert_explicit_type_bounds_cases_witness:
  "insert_explicit_type_bounds
     [QueryRoot, MarkLocation (Location ''A''), Traverse ''out'' ''Animal_ParentOf'' False,
      Filter (LocalField ''name'' ''String''), CoerceType {''Animal''},
      MarkLocation (Location ''B'')] example_metadata =
   Inr [QueryRoot, MarkLocation (Location ''A''), Traverse ''out'' ''Animal_ParentOf'' False,
        Filter (LocalField ''name'' ''String''), CoerceType {''Animal''},
        MarkLocation (Location ''B'')] \<and>
   insert_explicit_type_bounds
     [QueryRoot, MarkLocation (Location ''A''), Traverse ''out'' ''Animal_ParentOf'' False,
      Filter (LocalField ''name'' ''String''), MarkLocation (Location ''B'')] example_metadata =
   Inr [QueryRoot, MarkLocation (Location ''A''), Traverse ''out'' ''Animal_ParentOf'' False,
        CoerceType {''Animal''}, Filter (LocalField ''name'' ''String''),
        MarkLocation (Location ''B'')] \<and>
   (\<exists>e. insert_explicit_type_bounds
     [QueryRoot, MarkLocation (Location ''A''), Traverse ''out'' ''Animal_ParentOf'' False,
      Filter (LocalField ''name'' ''String''), Backtrack (Location ''A'')] example_metadata =
     Inl e) \<and>
   (\<exists>e. insert_explicit_type_bounds
     [QueryRoot, MarkLocation (Location ''A''), Traverse ''out'' ''Animal_ParentOf'' False,
      Filter (LocalField ''name'' ''String'')] example_metadata = Inl e)"
proof -
  have trig: "is_Traverse_Fold_Recurse (Traverse ''out'' ''Animal_ParentOf'' False)" by simp
  have fs: "\<forall>f \<in> set [Filter (LocalField ''name'' ''String'')]. is_Filter f" by simp
  note cases = insert_explicit_type_bounds_cases [OF trig fs,
      of "[QueryRoot, MarkLocation (Location ''A'')]" "{''Animal''}" "[]" example_metadata
         "Location ''B''"]
  have coerce: "insert_explicit_type_bounds
     [QueryRoot, MarkLocation (Location ''A''), Traverse ''out'' ''Animal_ParentOf'' False,
      Filter (LocalField ''name'' ''String''), CoerceType {''Animal''},
      MarkLocation (Location ''B'')] example_metadata =
   Inr [QueryRoot, MarkLocation (Location ''A''), Traverse ''out'' ''Animal_ParentOf'' False,
        Filter (LocalField ''name'' ''String''), CoerceType {''Animal''},
        MarkLocation (Location ''B'')]"
    by (simp add: insert_explicit_type_bounds_rec type_bound_emit_def get_location_info_def
        example_metadata_def)
  have mark: "insert_explicit_type_bounds
     [QueryRoot, MarkLocation (Location ''A''), Traverse ''out'' ''Animal_ParentOf'' False,
      Filter (LocalField ''name'' ''String''), MarkLocation (Location ''B'')] example_metadata =
   Inr [QueryRoot, MarkLocation (Location ''A''), Traverse ''out'' ''Animal_ParentOf'' False,
        CoerceType {''Animal''}, Filter (LocalField ''name'' ''String''),
        MarkLocation (Location ''B'')]"
    by (simp add: insert_explicit_type_bounds_rec type_bound_emit_def get_location_info_def
        example_metadata_def)
  have other: "\<exists>e. insert_explicit_type_bounds
     [QueryRoot, MarkLocation (Location ''A''), Traverse ''out'' ''Animal_ParentOf'' False,
      Filter (LocalField ''name'' ''String''), Backtrack (Location ''A'')] example_metadata =
     Inl e"
    using cases by (elim conjE allE[of _ "Backtrack (Location ''A'')"]) simp
  have ending: "\<exists>e. insert_explicit_type_bounds
     [QueryRoot, MarkLocation (Location ''A''), Traverse ''out'' ''Animal_ParentOf'' False,
      Filter (LocalField ''name'' ''String'')] example_metadata = Inl e"
    using cases by simp
  from coerce mark other ending show ?thesis by blast
qed

text \<open>
  Claim C4 (pass 4.2 is idempotent): when the pass succeeds on an input, it succeeds on
  its own output and returns that output unchanged.
\<close>

theorem insert_explicit_type_bounds_idempotent:
  assumes "insert_explicit_type_bounds xs meta = Inr out"
  shows "insert_explicit_type_bounds out meta = Inr out"
proof -
  have twice: "type_bounds_rec ys meta = Inr zs \<Longrightarrow> type_bounds_rec zs meta = Inr zs" for ys zs
  proof (induction ys arbitrary: zs)
    case Nil
    then show ?case by simp
  next
    case (Cons b rest)
    from Cons.prems obtain app out' where
      st: "type_bound_emit meta b rest = Inr app" and
      r: "type_bounds_rec rest meta = Inr out'" and o: "zs = app @ out'"
      by (rule rec_Cons_Inr)
    have again: "type_bounds_rec out' meta = Inr out'" by (rule Cons.IH[OF r])
    have fnf: "first_non_filter out' = first_non_filter rest" by (rule first_non_filter_output[OF r])
    from type_bound_emit_shape[OF st] show ?case
    proof
      assume a: "app = [b]"
      with st fnf have "type_bound_emit meta b out' = Inr [b]"
        by (simp add: type_bound_emit_no_insert)
      with a o again show ?thesis by simp
    next
      assume "is_Traverse_Fold_Recurse b \<and>
            (\<exists>l info. first_non_filter rest = Some (MarkLocation l) \<and>
               registered_locations meta l = Some info \<and>
               app = [b, CoerceType {type_name info}])"
      then obtain c where a: "app = [b, CoerceType c]" by auto
      have "type_bound_emit meta (CoerceType c) out' = Inr [CoerceType c]"
        by (simp add: type_bound_emit_not_trigger)
      with a o again show ?thesis by (simp add: type_bound_emit_coerce_next)
    qed
  qed
  from assms show ?thesis
    by (simp add: insert_explicit_type_bounds_rec twice)
qed

theorem insert_explicit_type_bounds_idempotent_witness:
  "insert_explicit_type_bounds
     [QueryRoot, MarkLocation (Location ''A''), Traverse ''out'' ''Animal_ParentOf'' True,
      Filter (LocalField ''name'' ''String''), MarkLocation (Location ''B''),
      Backtrack (Location ''A''), GlobalOperationsStart] example_metadata =
   Inr [QueryRoot, MarkLocation (Location ''A''), Traverse ''out'' ''Animal_ParentOf'' True,
        CoerceType {''Animal''}, Filter (LocalField ''name'' ''String''),
        MarkLocation (Location ''B''), Backtrack (Location ''A''), GlobalOperationsStart] \<and>
   insert_explicit_type_bounds
     [QueryRoot, MarkLocation (Location ''A''), Traverse ''out'' ''Animal_ParentOf'' True,
      CoerceType {''Animal''}, Filter (LocalField ''name'' ''String''),
      MarkLocation (Location ''B''), Backtrack (Location ''A''), GlobalOperationsStart]
     example_metadata =
   Inr [QueryRoot, MarkLocation (Location ''A''), Traverse ''out'' ''Animal_ParentOf'' True,
        CoerceType {''Animal''}, Filter (LocalField ''name'' ''String''),
        MarkLocation (Location ''B''), Backtrack (Location ''A''), GlobalOperationsStart]"
proof -
  have first: "insert_explicit_type_bounds
     [QueryRoot, MarkLocation (Location ''A''), Traverse ''out'' ''Animal_ParentOf'' True,
      Filter (LocalField ''name'' ''String''), MarkLocation (Location ''B''),
      Backtrack (Location ''A''), GlobalOperationsStart] example_metadata =
   Inr [QueryRoot, MarkLocation (Location ''A''), Traverse ''out'' ''Animal_ParentOf'' True,
        CoerceType {''Animal''}, Filter (LocalField ''name'' ''String''),
        MarkLocation (Location ''B''), Backtrack (Location ''A''), GlobalOperationsStart]"
    by (simp add: insert_explicit_type_bounds_rec type_bound_emit_def get_location_info_def
        example_metadata_def)
  from first insert_explicit_type_bounds_idempotent [OF first] show ?thesis by (rule conjI)
qed

text \<open>
  Claim C5 (block-count laws). When pass 4.2 succeeds, its output is longer than its input
  by the number of \<open>Traverse\<close>, \<open>Fold\<close> and \<open>Recurse\<close> blocks that lack a pre-existing
  \<open>CoerceType\<close>. The output of pass 4.3 is shorter than its input by the number of
  \<open>MarkLocation\<close> blocks whose location is a key of the revisit translation map. Pass 4.4
  always succeeds, with an output as long as its input.
\<close>

theorem block_count_laws:
  "(\<forall>out. insert_explicit_type_bounds xs meta = Inr out \<longrightarrow>
      length out = length xs + length (filter (lacks_coerce_type xs) [0..<length xs])) \<and>
   length (remove_mark_location_after_optional_backtrack xs meta) =
     length xs - length (filter (is_revisit_MarkLocation (revisit_origins meta)) xs) \<and>
   (\<exists>out. replace_local_fields_with_context_fields nav xs = Inr out \<and>
      length out = length xs)"
proof (intro conjI allI impI)
  fix out
  assume "insert_explicit_type_bounds xs meta = Inr out"
  then have "type_bounds_rec xs meta = Inr out"
    by (simp add: insert_explicit_type_bounds_rec)
  then show "length out = length xs + length (filter (lacks_coerce_type xs) [0..<length xs])"
    by (rule type_bounds_rec_length)
next
  show "length (remove_mark_location_after_optional_backtrack xs meta) =
     length xs - length (filter (is_revisit_MarkLocation (revisit_origins meta)) xs)"
    using remove_loop_length[of "revisit_origins meta" xs]
    by (simp add: remove_mark_location_after_optional_backtrack_def
        make_revisit_location_translations_def)
next
  show "\<exists>out. replace_local_fields_with_context_fields nav xs = Inr out \<and>
      length out = length xs"
    using replace_total[of nav xs] by blast
qed

theorem block_count_laws_witness:
  "insert_explicit_type_bounds
     [Traverse ''out'' ''Animal_ParentOf'' True, MarkLocation (Location ''B''),
      MarkLocation (Location ''A2'')] example_metadata =
   Inr [Traverse ''out'' ''Animal_ParentOf'' True, CoerceType {''Animal''},
        MarkLocation (Location ''B''), MarkLocation (Location ''A2'')] \<and>
   length [Traverse ''out'' ''Animal_ParentOf'' True, CoerceType {''Animal''},
        MarkLocation (Location ''B''), MarkLocation (Location ''A2'')] =
   length [Traverse ''out'' ''Animal_ParentOf'' True, MarkLocation (Location ''B''),
      MarkLocation (Location ''A2'')] +
   length (filter (lacks_coerce_type
      [Traverse ''out'' ''Animal_ParentOf'' True, MarkLocation (Location ''B''),
       MarkLocation (Location ''A2'')]) [0..<3]) \<and>
   length (remove_mark_location_after_optional_backtrack
     [Traverse ''out'' ''Animal_ParentOf'' True, MarkLocation (Location ''B''),
      MarkLocation (Location ''A2'')] example_metadata) = 2 \<and>
   (\<exists>out. replace_local_fields_with_context_fields field_location
     [Traverse ''out'' ''Animal_ParentOf'' True, MarkLocation (Location ''B''),
      MarkLocation (Location ''A2'')] = Inr out \<and> length out = 3)"
proof -
  have run: "insert_explicit_type_bounds
     [Traverse ''out'' ''Animal_ParentOf'' True, MarkLocation (Location ''B''),
      MarkLocation (Location ''A2'')] example_metadata =
   Inr [Traverse ''out'' ''Animal_ParentOf'' True, CoerceType {''Animal''},
        MarkLocation (Location ''B''), MarkLocation (Location ''A2'')]"
    by (simp add: insert_explicit_type_bounds_rec type_bound_emit_def get_location_info_def
        example_metadata_def)
  have revisits: "length (filter (is_revisit_MarkLocation (revisit_origins example_metadata))
     [Traverse ''out'' ''Animal_ParentOf'' True, MarkLocation (Location ''B''),
      MarkLocation (Location ''A2'')]) = 1"
    by (simp add: example_metadata_def)
  from run revisits
    block_count_laws [of "[Traverse ''out'' ''Animal_ParentOf'' True,
      MarkLocation (Location ''B''), MarkLocation (Location ''A2'')]"
      example_metadata field_location]
  show ?thesis by (simp add: lacks_coerce_type_def numeral_3_eq_3)
qed

text \<open>
  Claim C6 (pass 4.4, no unresolved local fields), as amended. For every input that holds
  a \<open>MarkLocation\<close>, with \<open>tail\<close> the blocks behind the last one: the pass succeeds, no
  block of its output up to that last \<open>MarkLocation\<close> holds a \<open>LocalField\<close>, and the
  blocks of \<open>tail\<close> are emitted as they are.
\<close>

theorem local_fields_resolved_up_to_last_mark_location:
  assumes "\<forall>b \<in> set tail. \<not> is_MarkLocation b"
  shows "\<exists>front. replace_local_fields_with_context_fields nav (pre @ MarkLocation l # tail) =
           Inr (front @ MarkLocation l # tail) \<and>
         length front = length pre \<and>
         (\<forall>b \<in> set front. \<not> block_has_local_field b)"
proof -
  obtain n p where np: "rewrite_loop nav pre ([], []) = (n, p)"
    by (cases "rewrite_loop nav pre ([], [])")
  let ?front = "n @ map (visit_and_update_expressions (visitor_func_base nav l)) p"
  have "rewrite_loop nav (pre @ MarkLocation l # tail) ([], []) =
          (?front @ [MarkLocation l], tail)"
    using assms np by (simp add: rewrite_loop_append rewrite_loop_no_mark)
  then have res: "replace_local_fields_with_context_fields nav (pre @ MarkLocation l # tail) =
          Inr (?front @ MarkLocation l # tail)"
    by (simp add: replace_result)
  have len: "length ?front = length pre"
    using rewrite_loop_length[OF np] by simp
  have "\<forall>b \<in> set (fst (rewrite_loop nav pre ([], []))). \<not> block_has_local_field b"
    by (rule rewrite_loop_keeps_resolved) simp
  with np have "\<forall>b \<in> set ?front. \<not> block_has_local_field b"
    by (auto simp: visit_resolve_block resolve_block_no_local)
  with res len show ?thesis by blast
qed

theorem local_fields_resolved_up_to_last_mark_location_witness:
  "replace_local_fields_with_context_fields field_location
     [Filter (LocalField ''name'' ''String''), MarkLocation (Location ''B''),
      Filter (LocalField ''name'' ''String'')] =
   Inr [Filter (ContextField (Location ''B.name'') ''String''), MarkLocation (Location ''B''),
        Filter (LocalField ''name'' ''String'')] \<and>
   \<not> block_has_local_field (Filter (ContextField (Location ''B.name'') ''String''))"
proof -
  have "\<forall>b \<in> set [Filter (LocalField ''name'' ''String'')]. \<not> is_MarkLocation b" by simp
  from local_fields_resolved_up_to_last_mark_location [OF this,
      of field_location "[Filter (LocalField ''name'' ''String'')]" "Location ''B''"]
  obtain front where
    "replace_local_fields_with_context_fields field_location
       ([Filter (LocalField ''name'' ''String'')] @ MarkLocation (Location ''B'') #
        [Filter (LocalField ''name'' ''String'')]) =
     Inr (front @ MarkLocation (Location ''B'') # [Filter (LocalField ''name'' ''String'')])"
    "\<forall>b \<in> set front. \<not> block_has_local_field b" by blast
  moreover have "replace_local_fields_with_context_fields field_location
     [Filter (LocalField ''name'' ''String''), MarkLocation (Location ''B''),
      Filter (LocalField ''name'' ''String'')] =
   Inr [Filter (ContextField (Location ''B.name'') ''String''), MarkLocation (Location ''B''),
        Filter (LocalField ''name'' ''String'')]"
    by (simp add: replace_local_fields_with_context_fields_def visitor_func_base_def)
  ultimately show ?thesis by (simp add: block_has_local_field_def)
qed

text \<open>
  Claim C6 as stated fails: the input below holds a \<open>MarkLocation\<close>, and the \<open>Filter\<close>
  behind it leaves the pass with its \<open>LocalField\<close>.
\<close>

theorem local_field_after_last_mark_location_counterexample:
  "replace_local_fields_with_context_fields field_location
     [MarkLocation (Location ''A''), Filter (LocalField ''name'' ''String'')] =
   Inr [MarkLocation (Location ''A''), Filter (LocalField ''name'' ''String'')] \<and>
   block_has_local_field (Filter (LocalField ''name'' ''String''))"
  by (simp add: replace_local_fields_with_context_fields_def block_has_local_field_def)






text \<open>
  Claim C9 (pass 4.5, filters that are never emitted). Let the metadata table know the
  location of every \<open>Backtrack\<close>. On an input \<open>post\<close> without \<open>GlobalOperationsStart\<close>
  the pass returns normally, and its output is \<open>post\<close> without the \<open>Filter\<close> blocks
  scanned with the flag set. Behind the last \<open>GlobalOperationsStart\<close> of an input the
  same holds: the output is the output for the input up to that block, followed by the
  blocks behind it without the \<open>Filter\<close> blocks scanned with the flag set. No fault is
  raised for the \<open>Filter\<close> blocks left out.
\<close>

theorem optional_filters_dropped_without_global_operations_start:
  assumes "GlobalOperationsStart \<notin> set post"
    and "backtracks_registered meta (pre @ post)"
  shows "move_filters_in_optional_locations_to_global_operations post meta =
           Inr (kept_blocks meta False post) \<and>
         (\<exists>front.
            move_filters_in_optional_locations_to_global_operations
              (pre @ [GlobalOperationsStart]) meta = Inr front \<and>
            move_filters_in_optional_locations_to_global_operations
              (pre @ GlobalOperationsStart # post) meta =
              Inr (front @ kept_blocks meta (final_flag meta False pre) post))"
proof
  from assms show "move_filters_in_optional_locations_to_global_operations post meta =
           Inr (kept_blocks meta False post)"
    by (simp add: move_filters_no_global)
next
  let ?init = "\<lparr>new_ir_blocks = [], global_filters = [], within_optional_scope = False\<rparr>"
  from assms(2) have "backtracks_registered meta pre" by simp
  from hoist_loop_total[OF this, of ?init] obtain st where
    st: "hoist_loop meta ?init pre = Inr st" and
    flag: "within_optional_scope st = final_flag meta False pre" by auto
  have "move_filters_in_optional_locations_to_global_operations
          (pre @ [GlobalOperationsStart]) meta =
        Inr (new_ir_blocks st @ GlobalOperationsStart # global_filters st)"
    using st
    by (simp add: move_filters_in_optional_locations_to_global_operations_def hoist_loop_append
        hoist_step_global)
  moreover have "move_filters_in_optional_locations_to_global_operations
          (pre @ GlobalOperationsStart # post) meta =
        Inr ((new_ir_blocks st @ GlobalOperationsStart # global_filters st)
             @ kept_blocks meta (final_flag meta False pre) post)"
    using move_filters_after_last_global[OF assms(1) _ st] assms(2) flag by simp
  ultimately show "\<exists>front.
            move_filters_in_optional_locations_to_global_operations
              (pre @ [GlobalOperationsStart]) meta = Inr front \<and>
            move_filters_in_optional_locations_to_global_operations
              (pre @ GlobalOperationsStart # post) meta =
              Inr (front @ kept_blocks meta (final_flag meta False pre) post)"
    by blast
qed

theorem optional_filters_dropped_without_global_operations_start_witness:
  "move_filters_in_optional_locations_to_global_operations
     [Traverse ''out'' ''Animal_ParentOf'' True, MarkLocation (Location ''B''),
      Filter (ContextField (Location ''B.name'') ''String''), Backtrack (Location ''A'')]
     example_metadata =
   Inr [Traverse ''out'' ''Animal_ParentOf'' True, MarkLocation (Location ''B''),
        Backtrack (Location ''A'')] \<and>
   move_filters_in_optional_locations_to_global_operations
     [QueryRoot, MarkLocation (Location ''A''), GlobalOperationsStart,
      Traverse ''out'' ''Animal_ParentOf'' True, MarkLocation (Location ''B''),
      Filter (ContextField (Location ''B.name'') ''String''), Backtrack (Location ''A'')]
     example_metadata =
   Inr [QueryRoot, MarkLocation (Location ''A''), GlobalOperationsStart,
        Traverse ''out'' ''Animal_ParentOf'' True, MarkLocation (Location ''B''),
        Backtrack (Location ''A'')]"
proof -
  have no_global: "GlobalOperationsStart \<notin>
      set [Traverse ''out'' ''Animal_ParentOf'' True, MarkLocation (Location ''B''),
           Filter (ContextField (Location ''B.name'') ''String''), Backtrack (Location ''A'')]"
    by simp
  have registered: "backtracks_registered example_metadata
      ([QueryRoot, MarkLocation (Location ''A'')] @
       [Traverse ''out'' ''Animal_ParentOf'' True, MarkLocation (Location ''B''),
        Filter (ContextField (Location ''B.name'') ''String''), Backtrack (Location ''A'')])"
    by (simp add: example_metadata_def)
  have front: "move_filters_in_optional_locations_to_global_operations
      ([QueryRoot, MarkLocation (Location ''A'')] @ [GlobalOperationsStart]) example_metadata =
      Inr [QueryRoot, MarkLocation (Location ''A''), GlobalOperationsStart]"
    by (simp add: move_filters_in_optional_locations_to_global_operations_def hoist_step_def
        hoist_branch_def)
  from optional_filters_dropped_without_global_operations_start [OF no_global registered] front
  show ?thesis by (simp add: example_metadata_def optional_depth_positive_def)
qed

text \<open>
  Claim C10 (pass 4.2, what is inserted and what is kept). When the pass succeeds, the
  positions of its output split into inserted ones and the others: the blocks at the others
  are the blocks of the input, unmodified and in their order, and every inserted block is a
  \<open>CoerceType\<close> of a singleton set, holding the type name that the metadata table records
  for the location of the \<open>MarkLocation\<close> found first behind it.
\<close>

theorem inserted_coerce_types_are_singletons:
  assumes "insert_explicit_type_bounds xs meta = Inr out"
  shows "\<exists>ins. length ins = length out \<and>
           map fst (filter (\<lambda>p. \<not> snd p) (zip out ins)) = xs \<and>
           (\<forall>j < length out. ins ! j \<longrightarrow>
              (\<exists>l info. first_non_filter (drop (Suc j) out) = Some (MarkLocation l) \<and>
                 registered_locations meta l = Some info \<and>
                 out ! j = CoerceType {type_name info}))"
proof -
  from assms have "type_bounds_rec xs meta = Inr out"
    by (simp add: insert_explicit_type_bounds_rec)
  from type_bounds_rec_marks[OF this] obtain ins where
    ok: "inserted_ok meta out ins" and
    keep: "map fst (filter (\<lambda>p. \<not> snd p) (zip out ins)) = xs" by blast
  from ok have "length ins = length out" by (rule inserted_ok_length)
  moreover from ok have "\<forall>j < length out. ins ! j \<longrightarrow>
              (\<exists>l info. first_non_filter (drop (Suc j) out) = Some (MarkLocation l) \<and>
                 registered_locations meta l = Some info \<and>
                 out ! j = CoerceType {type_name info})"
    using inserted_ok_nth by blast
  ultimately show ?thesis using keep by blast
qed

theorem inserted_coerce_types_are_singletons_witness:
  "insert_explicit_type_bounds
     [Traverse ''out'' ''Animal_OfSpecies'' False, Filter (LocalField ''name'' ''String''),
      MarkLocation (Location ''C'')] example_metadata =
   Inr [Traverse ''out'' ''Animal_OfSpecies'' False, CoerceType {''Species''},
        Filter (LocalField ''name'' ''String''), MarkLocation (Location ''C'')] \<and>
   (\<exists>ins.
      length ins =
        length [Traverse ''out'' ''Animal_OfSpecies'' False, CoerceType {''Species''},
                Filter (LocalField ''name'' ''String''), MarkLocation (Location ''C'')] \<and>
      map fst (filter (\<lambda>p. \<not> snd p)
        (zip [Traverse ''out'' ''Animal_OfSpecies'' False, CoerceType {''Species''},
              Filter (LocalField ''name'' ''String''), MarkLocation (Location ''C'')] ins)) =
      [Traverse ''out'' ''Animal_OfSpecies'' False, Filter (LocalField ''name'' ''String''),
       MarkLocation (Location ''C'')] \<and>
      (\<forall>j < length [Traverse ''out'' ''Animal_OfSpecies'' False, CoerceType {''Species''},
                Filter (LocalField ''name'' ''String''), MarkLocation (Location ''C'')].
         ins ! j \<longrightarrow>
           (\<exists>l info.
              first_non_filter
                (drop (Suc j)
                   [Traverse ''out'' ''Animal_OfSpecies'' False, CoerceType {''Species''},
                    Filter (LocalField ''name'' ''String''), MarkLocation (Location ''C'')]) =
                Some (MarkLocation l) \<and>
              registered_locations example_metadata l = Some info \<and>
              [Traverse ''out'' ''Animal_OfSpecies'' False, CoerceType {''Species''},
               Filter (LocalField ''name'' ''String''), MarkLocation (Location ''C'')] ! j =
                CoerceType {type_name info})))"
proof -
  have run: "insert_explicit_type_bounds
     [Traverse ''out'' ''Animal_OfSpecies'' False, Filter (LocalField ''name'' ''String''),
      MarkLocation (Location ''C'')] example_metadata =
   Inr [Traverse ''out'' ''Animal_OfSpecies'' False, CoerceType {''Species''},
        Filter (LocalField ''name'' ''String''), MarkLocation (Location ''C'')]"
    by (simp add: insert_explicit_type_bounds_rec type_bound_emit_def get_location_info_def
        example_metadata_def)
  from run inserted_coerce_types_are_singletons [OF run] show ?thesis by (rule conjI)
qed

end
